theory Spec2Isabelle
  imports Main "HOL-Library.Word"
begin

unbundle bit_operations_syntax

section \<open>The display encoder of mvisor (sweet/display\_encoder.cc)\<close>

text \<open>
  The encoder keeps a packed-pixel copy of the guest screen (\<open>screen_bitmap_\<close>), blits the
  partial updates it is handed into that copy, queues one aligned slice per update, and a
  worker thread converts the queued slices to I420, stitches them into the picture handed
  to x264 and passes the NAL units x264 returns to a callback.

  Every member function is embedded as a function on the encoder's fields. A function
  that can stop the process returns \<open>fault + _\<close>. The C \<open>uint\<close> is a 32-bit word, with the
  wrap-around of the unsigned arithmetic; pointers into a buffer are integer offsets from
  the buffer's first byte.
\<close>

subsection \<open>Data\<close>

type_synonym uint = "32 word"
type_synonym byte = "8 word"

text \<open>
  How a call can end other than by returning: a failed \<open>MV_ASSERT\<close>, an \<open>MV_PANIC\<close>, and
  the two kinds of undefined behaviour the blit can reach, a \<open>memcpy\<close> whose source or
  destination range is not inside its buffer (with the offset at which the range starts)
  and a division by zero.
\<close>

datatype fault =
  Assert_Failed | Panic | Read_Out_Of_Bounds int | Write_Out_Of_Bounds int | Division_By_Zero

text \<open>\<open>X264_TYPE_AUTO\<close> and \<open>X264_TYPE_KEYFRAME\<close>, the two values the encoder gives \<open>i_type\<close>.\<close>

datatype x264_type = X264_TYPE_AUTO | X264_TYPE_KEYFRAME

text \<open>
  \<open>x264_image_t\<close> and \<open>x264_picture_t\<close>, with the fields the encoder reads or writes:
  the planes and their strides (indexed as the C arrays are), the frame type and the
  presentation timestamp (an \<open>int64_t\<close>). The plane pointers of a picture point into the
  one block of memory \<open>x264_picture_alloc\<close> gives it: \<open>pixels\<close> is that block and
  \<open>plane i\<close> the offset of plane \<open>i\<close> in it.
\<close>

record x264_image =
  pixels :: "byte list"
  plane :: "nat \<Rightarrow> int"
  i_stride :: "nat \<Rightarrow> int"

record x264_picture =
  i_type :: x264_type
  i_pts :: "64 word"
  img :: x264_image

text \<open>\<open>EncodeSlice\<close>: the rectangle and the I420 tile allocated for it.\<close>

record EncodeSlice =
  slice_x :: uint
  slice_y :: uint
  slice_width :: uint
  slice_height :: uint
  yuv :: x264_picture

text \<open>
  \<open>DisplayPartialBitmap\<close>. Modelled from the spec: the declaration of the struct is not
  among the sources; the spec gives its fields (the rectangle, the source stride, the flip
  flag and the list of I/O segments). The numeric fields are taken as \<open>uint\<close>, the type
  \<open>CreateEncodeSlice\<close> receives them as. A segment is the list of its \<open>iov_len\<close> bytes.
\<close>

record DisplayPartialBitmap =
  vector :: "byte list list"
  stride :: uint
  partial_x :: uint
  partial_y :: uint
  partial_width :: uint
  partial_height :: uint
  flip :: bool

text \<open>
  The fields of \<open>SweetDisplayEncoder\<close>. \<open>'cb\<close> is the type of the output callbacks;
  \<open>output_callback = None\<close> is the empty \<open>std::function\<close>. \<open>output_nal\<close> is the payload
  \<open>output_nal_->p_payload\<close> points to.

  Two fields are not in the source: \<open>submitted\<close> lists the pictures handed to
  \<open>x264_encoder_encode\<close> (timestamp and type) and \<open>delivered\<close> the calls of the output
  callback (the callback, the payload and the size passed), both in order.
\<close>

record 'cb encoder =
  screen_width :: uint
  screen_height :: uint
  screen_bpp :: uint
  screen_stride :: uint
  screen_bitmap :: "byte list"
  started :: bool
  destroyed :: bool
  force_keyframe :: bool
  output_callback :: "'cb option"
  encode_slices :: "EncodeSlice list"
  input_yuv :: x264_picture
  output_nal :: "byte list"
  output_nal_size :: "32 word"
  submitted :: "(64 word \<times> x264_type) list"
  delivered :: "('cb \<times> byte list \<times> int) list"

subsection \<open>CreateEncodeSlice, Start, Stop, ForceKeyframe\<close>

text \<open>
  \<open>x264_picture_alloc\<close> belongs to the codec library: it is a parameter \<open>alloc\<close>, from
  the width and the height asked for to the picture allocated, \<open>None\<close> when the library
  returns a negative value.
\<close>

type_synonym picture_alloc = "uint \<Rightarrow> uint \<Rightarrow> x264_picture option"

definition CreateEncodeSlice ::
  "picture_alloc \<Rightarrow> uint \<Rightarrow> uint \<Rightarrow> uint \<Rightarrow> uint \<Rightarrow> 'cb encoder \<Rightarrow> fault + 'cb encoder" where
  "CreateEncodeSlice alloc top0 left0 bottom0 right0 s =
    (let width_alignment = 16 :: uint;
         left1 = (if left0 mod width_alignment \<noteq> 0
                  then left0 - left0 mod width_alignment else left0);
         right1 = (if right0 mod width_alignment \<noteq> 0
                   then right0 + (width_alignment - right0 mod width_alignment) else right0);
         height_alignment = 2 :: uint;
         top1 = (if top0 mod height_alignment \<noteq> 0
                 then top0 - top0 mod height_alignment else top0);
         bottom1 = (if bottom0 mod height_alignment \<noteq> 0
                    then bottom0 + (height_alignment - bottom0 mod height_alignment)
                    else bottom0);
         right2 = (if right1 > screen_width s then screen_width s else right1);
         bottom2 = (if bottom1 > screen_height s then screen_height s else bottom1)
     in case alloc (right2 - left1) (bottom2 - top1) of
          None \<Rightarrow> Inl Panic
        | Some pic \<Rightarrow>
            Inr (s\<lparr>encode_slices := encode_slices s @
                  [\<lparr>slice_x = left1, slice_y = top1, slice_width = right2 - left1,
                    slice_height = bottom2 - top1, yuv = pic\<rparr>]\<rparr>))"

definition Start :: "picture_alloc \<Rightarrow> 'cb \<Rightarrow> 'cb encoder \<Rightarrow> fault + 'cb encoder" where
  "Start alloc callback s =
     CreateEncodeSlice alloc 0 0 (screen_height s) (screen_width s)
       (s\<lparr>started := True, force_keyframe := True, output_callback := Some callback\<rparr>)"

definition Stop :: "'cb encoder \<Rightarrow> 'cb encoder" where
  "Stop s = s\<lparr>started := False, output_callback := None\<rparr>"

text \<open>\<open>ForceKeyframe\<close> also notifies the condition variable, which changes no field.\<close>

definition ForceKeyframe :: "'cb encoder \<Rightarrow> 'cb encoder" where
  "ForceKeyframe s = s\<lparr>force_keyframe := True\<rparr>"

subsection \<open>RenderPartial and Render\<close>

text \<open>
  \<open>memcpy dst d src f n\<close> copies \<open>n\<close> bytes from offset \<open>f\<close> of the buffer \<open>src\<close> to
  offset \<open>d\<close> of the buffer \<open>dst\<close> and returns the new contents of \<open>dst\<close>. The C function
  takes a \<open>size_t\<close>: a negative \<open>int\<close> length becomes a length no buffer has. A range that
  is not inside its buffer is undefined behaviour in C and a fault here.
\<close>

definition memcpy :: "byte list \<Rightarrow> int \<Rightarrow> byte list \<Rightarrow> int \<Rightarrow> int \<Rightarrow> fault + byte list" where
  "memcpy dst d src f n =
     (if n < 0 then Inl (Write_Out_Of_Bounds d)
      else if f < 0 \<or> int (length src) < f + n then Inl (Read_Out_Of_Bounds f)
      else if d < 0 \<or> int (length dst) < d + n then Inl (Write_Out_Of_Bounds d)
      else Inr (take (nat d) dst @ take (nat n) (drop (nat f) src) @ drop (nat (d + n)) dst))"

text \<open>
  The inner loop of \<open>RenderPartial\<close>, \<open>while (copy_lines > 0 && lines > 0)\<close>, by recursion
  on \<open>copy_lines\<close>. The loop's variables are the bitmap, \<open>dst\<close>, \<open>src\<close> (an offset into the
  segment \<open>seg\<close>) and \<open>lines\<close>.
\<close>

fun copy_lines_loop ::
  "int \<Rightarrow> int \<Rightarrow> int \<Rightarrow> byte list \<Rightarrow> int \<Rightarrow> nat \<Rightarrow> byte list \<times> int \<times> int \<times> nat
   \<Rightarrow> fault + byte list \<times> int \<times> int \<times> nat" where
  "copy_lines_loop dst_end dst_stride linesize seg src_stride 0 st = Inr st"
| "copy_lines_loop dst_end dst_stride linesize seg src_stride (Suc copy_lines) (bitmap, dst, src, lines) =
     (if lines > 0 then
        (if dst + linesize \<le> dst_end then
           (case memcpy bitmap dst seg src linesize of
              Inl e \<Rightarrow> Inl e
            | Inr bitmap' \<Rightarrow>
                copy_lines_loop dst_end dst_stride linesize seg src_stride copy_lines
                  (bitmap', dst + dst_stride, src + src_stride, lines - 1))
         else Inl Assert_Failed)
      else Inr (bitmap, dst, src, lines))"

text \<open>
  The outer loop, \<open>while (lines > 0 && src_index < partial->vector.size())\<close>, by recursion
  on the segments from \<open>src_index\<close> on. \<open>iov_len / partial->stride\<close> divides by zero when
  the partial's stride is 0.
\<close>

fun vector_loop ::
  "int \<Rightarrow> int \<Rightarrow> int \<Rightarrow> uint \<Rightarrow> byte list list \<Rightarrow> byte list \<times> int \<times> nat \<Rightarrow> fault + byte list" where
  "vector_loop dst_end dst_stride linesize src_stride [] (bitmap, dst, lines) = Inr bitmap"
| "vector_loop dst_end dst_stride linesize src_stride (seg # segs) (bitmap, dst, lines) =
     (if lines > 0 then
        (if src_stride = 0 then Inl Division_By_Zero
         else
           (case copy_lines_loop dst_end dst_stride linesize seg (uint src_stride)
                   (length seg div unat src_stride) (bitmap, dst, 0, lines) of
              Inl e \<Rightarrow> Inl e
            | Inr (bitmap', dst', src', lines') \<Rightarrow>
                vector_loop dst_end dst_stride linesize src_stride segs (bitmap', dst', lines')))
      else Inr bitmap)"

text \<open>
  \<open>RenderPartial\<close>. \<open>dst_stride\<close> and \<open>linesize\<close> are \<open>int\<close>; the offsets added to \<open>dst\<close> are
  computed in \<open>uint\<close> (an \<open>int\<close> times a \<open>uint\<close> is a \<open>uint\<close> in C) and wrap around.
\<close>

definition RenderPartial :: "DisplayPartialBitmap \<Rightarrow> 'cb encoder \<Rightarrow> fault + 'cb encoder" where
  "RenderPartial partial s =
     (let dst_stride = sint (screen_stride s);
          dst_end = uint ((word_of_int dst_stride :: uint) * screen_height s);
          dst = (if flip partial
                 then uint ((word_of_int dst_stride :: uint)
                              * (partial_y partial + partial_height partial - 1)
                            + partial_x partial * drop_bit 3 (screen_bpp s))
                 else uint ((word_of_int dst_stride :: uint) * partial_y partial
                            + partial_x partial * drop_bit 3 (screen_bpp s)));
          dst_stride = (if flip partial then - dst_stride else dst_stride);
          linesize = sint (partial_width partial * drop_bit 3 (screen_bpp s));
          lines = unat (partial_height partial)
      in case vector_loop dst_end dst_stride linesize (stride partial) (vector partial)
                (screen_bitmap s, dst, lines) of
           Inl e \<Rightarrow> Inl e
         | Inr bitmap \<Rightarrow> Inr (s\<lparr>screen_bitmap := bitmap\<rparr>))"

text \<open>
  \<open>Render\<close>: the loop over the partials, then the wake-up of the encode thread. The
  result carries whether \<open>encode_cv_.notify_all()\<close> was called.
\<close>

fun Render_loop ::
  "picture_alloc \<Rightarrow> DisplayPartialBitmap list \<Rightarrow> 'cb encoder \<Rightarrow> fault + 'cb encoder" where
  "Render_loop alloc [] s = Inr s"
| "Render_loop alloc (partial # partials) s =
     (case RenderPartial partial s of
        Inl e \<Rightarrow> Inl e
      | Inr s1 \<Rightarrow>
          (if started s1 then
             (case CreateEncodeSlice alloc (partial_y partial) (partial_x partial)
                     (partial_y partial + partial_height partial)
                     (partial_x partial + partial_width partial) s1 of
                Inl e \<Rightarrow> Inl e
              | Inr s2 \<Rightarrow> Render_loop alloc partials s2)
           else Render_loop alloc partials s1))"

definition Render ::
  "picture_alloc \<Rightarrow> DisplayPartialBitmap list \<Rightarrow> 'cb encoder \<Rightarrow> fault + bool \<times> 'cb encoder" where
  "Render alloc partials s =
     (case Render_loop alloc partials s of
        Inl e \<Rightarrow> Inl e
      | Inr s' \<Rightarrow> Inr (encode_slices s' \<noteq> [], s'))"

subsection \<open>The encode thread: ConvertSlices, DrawSlices, Encode, EncodeProcess\<close>

text \<open>
  \<open>libyuv::ARGBToI420\<close> and \<open>libyuv::RGB24ToI420\<close> belong to the conversion library: they
  are parameters, from the source buffer, the offset and stride of the source in it, the
  destination image, the width and the height to the destination image written.
\<close>

type_synonym converter = "byte list \<Rightarrow> int \<Rightarrow> uint \<Rightarrow> x264_image \<Rightarrow> uint \<Rightarrow> uint \<Rightarrow> x264_image"

definition ConvertSlices :: "converter \<Rightarrow> converter \<Rightarrow> 'cb encoder \<Rightarrow> 'cb encoder" where
  "ConvertSlices ARGBToI420 RGB24ToI420 s =
     s\<lparr>encode_slices :=
         map (\<lambda>sl.
               let src = uint (screen_stride s * slice_y sl
                               + slice_x sl * drop_bit 3 (screen_bpp s));
                   dst = img (yuv sl)
               in if screen_bpp s = 32 then
                    sl\<lparr>yuv := (yuv sl)\<lparr>img :=
                      ARGBToI420 (screen_bitmap s) src (screen_stride s) dst
                        (slice_width sl) (slice_height sl)\<rparr>\<rparr>
                  else if screen_bpp s = 24 then
                    sl\<lparr>yuv := (yuv sl)\<lparr>img :=
                      RGB24ToI420 (screen_bitmap s) src (screen_stride s) dst
                        (slice_width sl) (slice_height sl)\<rparr>\<rparr>
                  else sl)
           (encode_slices s)\<rparr>"

text \<open>
  One of the three row loops of \<open>DrawSlices\<close>: \<open>rows\<close> times, copy \<open>n\<close> bytes from offset
  \<open>from\<close> of the tile to offset \<open>to\<close> of the picture and advance both by their strides.
\<close>

fun copy_plane ::
  "byte list \<Rightarrow> int \<Rightarrow> int \<Rightarrow> byte list \<Rightarrow> int \<Rightarrow> int \<Rightarrow> int \<Rightarrow> nat \<Rightarrow> fault + byte list" where
  "copy_plane dst to to_stride src from from_stride n 0 = Inr dst"
| "copy_plane dst to to_stride src from from_stride n (Suc rows) =
     (case memcpy dst to src from n of
        Inl e \<Rightarrow> Inl e
      | Inr dst' \<Rightarrow>
          copy_plane dst' (to + to_stride) to_stride src (from + from_stride) from_stride n rows)"

text \<open>The body of the loop of \<open>DrawSlices\<close>: the Y, U and V bits of one slice.\<close>

definition DrawSlice :: "EncodeSlice \<Rightarrow> x264_image \<Rightarrow> fault + x264_image" where
  "DrawSlice sl dst =
     (let src = img (yuv sl) in
      case copy_plane (pixels dst)
             (plane dst 0 + uint ((word_of_int (i_stride dst 0) :: uint) * slice_y sl + slice_x sl))
             (i_stride dst 0) (pixels src) (plane src 0) (i_stride src 0)
             (uint (slice_width sl)) (unat (slice_height sl)) of
        Inl e \<Rightarrow> Inl e
      | Inr px0 \<Rightarrow>
     (case copy_plane px0
             (plane dst 1 + uint ((word_of_int (i_stride dst 1) :: uint) * drop_bit 1 (slice_y sl)
                                  + drop_bit 1 (slice_x sl)))
             (i_stride dst 1) (pixels src) (plane src 1) (i_stride src 1)
             (uint (drop_bit 1 (slice_width sl))) (unat (drop_bit 1 (slice_height sl))) of
        Inl e \<Rightarrow> Inl e
      | Inr px1 \<Rightarrow>
     (case copy_plane px1
             (plane dst 2 + uint ((word_of_int (i_stride dst 2) :: uint) * drop_bit 1 (slice_y sl)
                                  + drop_bit 1 (slice_x sl)))
             (i_stride dst 2) (pixels src) (plane src 2) (i_stride src 2)
             (uint (drop_bit 1 (slice_width sl))) (unat (drop_bit 1 (slice_height sl))) of
        Inl e \<Rightarrow> Inl e
      | Inr px2 \<Rightarrow> Inr (dst\<lparr>pixels := px2\<rparr>))))"

fun DrawSlices :: "EncodeSlice list \<Rightarrow> x264_image \<Rightarrow> fault + x264_image" where
  "DrawSlices [] dst = Inr dst"
| "DrawSlices (sl # sls) dst =
     (case DrawSlice sl dst of
        Inl e \<Rightarrow> Inl e
      | Inr dst' \<Rightarrow> DrawSlices sls dst')"

text \<open>
  \<open>x264_encoder_encode\<close> belongs to the codec library. What it returns on one call is a
  parameter: the size returned (an \<open>int\<close>) and the payload \<open>output_nal_\<close> points to after
  the call.
\<close>

record x264_reply =
  reply_size :: "32 word"
  reply_nal :: "byte list"

text \<open>
  \<open>Encode\<close>. The \<open>if (output_nal_size_ < 0) return;\<close> that ends the function is its last
  statement: both of its branches return.
\<close>

definition Encode :: "x264_reply \<Rightarrow> 'cb encoder \<Rightarrow> 'cb encoder" where
  "Encode reply s =
     (let pic = (input_yuv s)\<lparr>i_pts := i_pts (input_yuv s) + 1\<rparr>;
          s1 = (if force_keyframe s
                then s\<lparr>input_yuv := pic\<lparr>i_type := X264_TYPE_KEYFRAME\<rparr>, force_keyframe := False\<rparr>
                else s\<lparr>input_yuv := pic\<lparr>i_type := X264_TYPE_AUTO\<rparr>\<rparr>);
          s2 = s1\<lparr>submitted := submitted s1 @ [(i_pts (input_yuv s1), i_type (input_yuv s1))],
                 output_nal := reply_nal reply,
                 output_nal_size := reply_size reply\<rparr>
      in if sint (output_nal_size s2) < 0 then s2 else s2)"

text \<open>
  One pass of the loop of \<open>EncodeProcess\<close>, from the return of \<open>wait_for\<close> to the end of
  the body; \<open>reply\<close> is what the codec returns if the pass calls it. The pass is taken as
  one step: the calls of the other threads come between passes. A pass that finds
  \<open>destroyed_\<close> set leaves the loop and one that finds \<open>started_\<close> unset goes back to
  waiting; neither changes a field.
\<close>

definition EncodeProcess_pass ::
  "converter \<Rightarrow> converter \<Rightarrow> x264_reply \<Rightarrow> 'cb encoder \<Rightarrow> fault + 'cb encoder" where
  "EncodeProcess_pass ARGBToI420 RGB24ToI420 reply s =
     (if destroyed s then Inr s
      else if \<not> started s then Inr s
      else
        (case (if encode_slices s = [] then Inr s
               else
                 (let s1 = ConvertSlices ARGBToI420 RGB24ToI420 s;
                      copied = encode_slices s1;
                      s2 = s1\<lparr>encode_slices := []\<rparr>
                  in case DrawSlices copied (img (input_yuv s2)) of
                       Inl e \<Rightarrow> Inl e
                     | Inr picture \<Rightarrow> Inr (s2\<lparr>input_yuv := (input_yuv s2)\<lparr>img := picture\<rparr>\<rparr>))) of
           Inl e \<Rightarrow> Inl e
         | Inr s3 \<Rightarrow>
             (let s4 = Encode reply s3
              in case output_callback s4 of
                   None \<Rightarrow> Inr s4
                 | Some callback \<Rightarrow>
                     Inr (s4\<lparr>delivered := delivered s4 @
                            [(callback, output_nal s4, sint (output_nal_size s4))]\<rparr>))))"

text \<open>The passes of the encode thread on a list of replies, one per pass, up to a fault.\<close>

fun EncodeProcess ::
  "converter \<Rightarrow> converter \<Rightarrow> x264_reply list \<Rightarrow> 'cb encoder \<Rightarrow> fault + 'cb encoder" where
  "EncodeProcess ARGBToI420 RGB24ToI420 [] s = Inr s"
| "EncodeProcess ARGBToI420 RGB24ToI420 (reply # replies) s =
     (case EncodeProcess_pass ARGBToI420 RGB24ToI420 reply s of
        Inl e \<Rightarrow> Inl e
      | Inr s' \<Rightarrow> EncodeProcess ARGBToI420 RGB24ToI420 replies s')"

subsection \<open>The vocabulary of the statements\<close>

text \<open>\<open>screen_bpp_ >> 3\<close>, the bytes of one pixel.\<close>

definition bytes_per_pixel :: "'cb encoder \<Rightarrow> nat" where
  "bytes_per_pixel s = unat (drop_bit 3 (screen_bpp s))"

text \<open>
  A screen the constructor accepts: it asserts that the width and the height are even. It
  hands both to the codec as \<open>int\<close> (\<open>param.i_width = screen_width_\<close>), so the screens
  considered are those whose width and height are \<open>int\<close> values, below \<open>2^31\<close>.
\<close>

definition screen_ok :: "'cb encoder \<Rightarrow> bool" where
  "screen_ok s \<longleftrightarrow>
     screen_width s mod 2 = 0 \<and> screen_height s mod 2 = 0 \<and>
     unat (screen_width s) < 2 ^ 31 \<and> unat (screen_height s) < 2 ^ 31"

text \<open>
  The layout of the screen buffer: a row holds the pixels of a screen line, the stride is
  an \<open>int\<close> value (\<open>int dst_stride = screen_stride_\<close>), and the buffer has the
  \<open>screen_stride_ * screen_height_\<close> bytes the constructor allocates, a product that
  does not wrap.
\<close>

definition screen_layout :: "'cb encoder \<Rightarrow> bool" where
  "screen_layout s \<longleftrightarrow>
     unat (screen_width s) * bytes_per_pixel s \<le> unat (screen_stride s) \<and>
     unat (screen_stride s) < 2 ^ 31 \<and>
     unat (screen_stride s) * unat (screen_height s) < 2 ^ 32 \<and>
     length (screen_bitmap s) = unat (screen_stride s) * unat (screen_height s)"

text \<open>A partial whose rectangle lies on the screen.\<close>

definition in_bounds :: "'cb encoder \<Rightarrow> DisplayPartialBitmap \<Rightarrow> bool" where
  "in_bounds s p \<longleftrightarrow>
     unat (partial_x p) + unat (partial_width p) \<le> unat (screen_width s) \<and>
     unat (partial_y p) + unat (partial_height p) \<le> unat (screen_height s)"

text \<open>
  The rows the segments of a partial supply, counted as \<open>RenderPartial\<close> counts them
  (\<open>iov_len / stride\<close> for each segment), and a partial whose payload is as the spec
  describes it: the length of every segment is a multiple of the source stride, and the
  segments supply \<open>height\<close> rows or more.
\<close>

definition supplied_rows :: "DisplayPartialBitmap \<Rightarrow> nat" where
  "supplied_rows p = sum_list (map (\<lambda>seg. length seg div unat (stride p)) (vector p))"

definition payload_ok :: "DisplayPartialBitmap \<Rightarrow> bool" where
  "payload_ok p \<longleftrightarrow>
     list_all (\<lambda>seg. length seg mod unat (stride p) = 0) (vector p) \<and>
     unat (partial_height p) \<le> supplied_rows p"

text \<open>
  Byte \<open>j\<close> of row \<open>r\<close> of the concatenated segments of a partial, and the screen row
  that source row \<open>r\<close> of a partial is for: counted down from the last row of the rectangle
  when \<open>flip\<close> is set, up from its first row otherwise.
\<close>

definition source_byte :: "DisplayPartialBitmap \<Rightarrow> nat \<Rightarrow> nat \<Rightarrow> byte" where
  "source_byte p r j = concat (vector p) ! (r * unat (stride p) + j)"

definition dest_row :: "DisplayPartialBitmap \<Rightarrow> nat \<Rightarrow> nat" where
  "dest_row p r =
     (if flip p then unat (partial_y p) + unat (partial_height p) - 1 - r
      else unat (partial_y p) + r)"

text \<open>The byte of the screen buffer at byte \<open>j\<close> of the pixels from column \<open>x\<close> on of row \<open>row\<close>.\<close>

definition screen_byte :: "'cb encoder \<Rightarrow> nat \<Rightarrow> nat \<Rightarrow> nat \<Rightarrow> byte" where
  "screen_byte s row x j =
     screen_bitmap s ! (row * unat (screen_stride s) + x * bytes_per_pixel s + j)"

text \<open>Byte \<open>i\<close> of a buffer lies among the \<open>len\<close> bytes from offset \<open>start\<close> on.\<close>

definition in_span :: "int \<Rightarrow> int \<Rightarrow> nat \<Rightarrow> bool" where
  "in_span start len i \<longleftrightarrow> start \<le> int i \<and> int i < start + len"

text \<open>Two partials whose rectangles share no pixel.\<close>

definition disjoint_rects :: "DisplayPartialBitmap \<Rightarrow> DisplayPartialBitmap \<Rightarrow> bool" where
  "disjoint_rects p q \<longleftrightarrow>
     unat (partial_x p) + unat (partial_width p) \<le> unat (partial_x q) \<or>
     unat (partial_x q) + unat (partial_width q) \<le> unat (partial_x p) \<or>
     unat (partial_y p) + unat (partial_height p) \<le> unat (partial_y q) \<or>
     unat (partial_y q) + unat (partial_height q) \<le> unat (partial_y p)"

text \<open>
  The rectangle of a slice, and the alignment the slices of the queue have: \<open>x\<close> is a
  multiple of 16, \<open>y\<close> and the height are even, the width is even and is a multiple
  of 16 unless the slice ends at the right edge of the screen, and the rectangle lies on
  the screen.
\<close>

definition slice_rect :: "EncodeSlice \<Rightarrow> uint \<times> uint \<times> uint \<times> uint" where
  "slice_rect sl = (slice_x sl, slice_y sl, slice_width sl, slice_height sl)"

definition slice_aligned :: "'cb encoder \<Rightarrow> EncodeSlice \<Rightarrow> bool" where
  "slice_aligned s sl \<longleftrightarrow>
     unat (slice_x sl) mod 16 = 0 \<and>
     unat (slice_width sl) mod 2 = 0 \<and>
     (unat (slice_width sl) mod 16 = 0 \<or>
      unat (slice_x sl) + unat (slice_width sl) = unat (screen_width s)) \<and>
     unat (slice_y sl) mod 2 = 0 \<and>
     unat (slice_height sl) mod 2 = 0 \<and>
     unat (slice_x sl) + unat (slice_width sl) \<le> unat (screen_width s) \<and>
     unat (slice_y sl) + unat (slice_height sl) \<le> unat (screen_height s)"

text \<open>
  The four edges \<open>CreateEncodeSlice\<close> gives a slice, as functions of the edges it is
  called with and of the screen's width and height.
\<close>

definition slice_left :: "uint \<Rightarrow> uint" where
  "slice_left l = (if l mod 16 \<noteq> 0 then l - l mod 16 else l)"

definition slice_top :: "uint \<Rightarrow> uint" where
  "slice_top t = (if t mod 2 \<noteq> 0 then t - t mod 2 else t)"

definition slice_right :: "uint \<Rightarrow> uint \<Rightarrow> uint" where
  "slice_right w r =
     (if (if r mod 16 \<noteq> 0 then r + (16 - r mod 16) else r) > w then w
      else (if r mod 16 \<noteq> 0 then r + (16 - r mod 16) else r))"

definition slice_bottom :: "uint \<Rightarrow> uint \<Rightarrow> uint" where
  "slice_bottom h b =
     (if (if b mod 2 \<noteq> 0 then b + (2 - b mod 2) else b) > h then h
      else (if b mod 2 \<noteq> 0 then b + (2 - b mod 2) else b))"

text \<open>
  What a call that returned left in a field, \<open>None\<close> when it ended in a fault; the fault
  a call ended in, \<open>None\<close> when it returned; and the byte of the screen buffer that
  \<open>Render\<close> left at a place.
\<close>

definition on_return :: "('a \<Rightarrow> 'b) \<Rightarrow> fault + 'a \<Rightarrow> 'b option" where
  "on_return f r = (case r of Inl e \<Rightarrow> None | Inr a \<Rightarrow> Some (f a))"

definition fault_of :: "fault + 'a \<Rightarrow> fault option" where
  "fault_of r = (case r of Inl e \<Rightarrow> Some e | Inr a \<Rightarrow> None)"

definition byte_after :: "fault + bool \<times> 'cb encoder \<Rightarrow> nat \<Rightarrow> nat \<Rightarrow> nat \<Rightarrow> byte option" where
  "byte_after r row x j = on_return (\<lambda>(woken, s). screen_byte s row x j) r"

definition queued_rects :: "'cb encoder \<Rightarrow> (uint \<times> uint \<times> uint \<times> uint) list" where
  "queued_rects s = map slice_rect (encode_slices s)"

definition pts :: "'cb encoder \<Rightarrow> 64 word" where
  "pts s = i_pts (input_yuv s)"

definition submitted_types :: "'cb encoder \<Rightarrow> x264_type list" where
  "submitted_types s = map snd (submitted s)"

text \<open>A pass of the encode thread produced output when the codec returned a size that is not negative.\<close>

definition produced_output :: "x264_reply \<Rightarrow> bool" where
  "produced_output reply \<longleftrightarrow> 0 \<le> sint (reply_size reply)"

subsection \<open>Examples\<close>

text \<open>
  An I420 picture of the given size as the codec library lays it out, all zero; an
  allocator that never fails; a converter that leaves the tile as it is; and an encoder
  on a screen of the given width, height, depth and stride, with an all-zero bitmap, not
  started, with an empty queue.
\<close>

definition blank_picture :: "uint \<Rightarrow> uint \<Rightarrow> x264_picture" where
  "blank_picture w h =
     \<lparr>i_type = X264_TYPE_AUTO, i_pts = 0,
      img = \<lparr>pixels = replicate (unat w * unat h + 2 * (unat w div 2 * (unat h div 2))) 0,
             plane = (\<lambda>i. if i = 0 then 0
                          else if i = 1 then int (unat w * unat h)
                          else int (unat w * unat h + unat w div 2 * (unat h div 2))),
             i_stride = (\<lambda>i. if i = 0 then uint w else uint w div 2)\<rparr>\<rparr>"

definition example_alloc :: picture_alloc where
  "example_alloc w h = Some (blank_picture w h)"

definition no_conversion :: converter where
  "no_conversion bitmap src src_stride dst w h = dst"

definition example_encoder :: "uint \<Rightarrow> uint \<Rightarrow> uint \<Rightarrow> uint \<Rightarrow> nat encoder" where
  "example_encoder w h bpp st =
     \<lparr>screen_width = w, screen_height = h, screen_bpp = bpp, screen_stride = st,
      screen_bitmap = replicate (unat (st * h)) 0,
      started = False, destroyed = False, force_keyframe = False,
      output_callback = None, encode_slices = [],
      input_yuv = blank_picture w h,
      output_nal = [], output_nal_size = 0, submitted = [], delivered = []\<rparr>"

text \<open>
  The same encoder once started, with callback 7 installed and the queue empty; and a
  flipped partial of 3 by 2 pixels at column 17 of row 1, in two segments of one row each.
\<close>

definition running_encoder :: "uint \<Rightarrow> uint \<Rightarrow> uint \<Rightarrow> uint \<Rightarrow> nat encoder" where
  "running_encoder w h bpp st = (example_encoder w h bpp st)\<lparr>started := True, output_callback := Some 7\<rparr>"

definition example_partial :: DisplayPartialBitmap where
  "example_partial =
     \<lparr>vector = [[1, 2, 3, 4, 5, 6, 7, 8, 9, 10, 11, 12],
                [13, 14, 15, 16, 17, 18, 19, 20, 21, 22, 23, 24]],
      stride = 12, partial_x = 17, partial_y = 1, partial_width = 3, partial_height = 2,
      flip = True\<rparr>"

text \<open>
  An encoder on a screen of 16 bits per pixel, started, with the full-screen slice that
  \<open>Start\<close> queues.
\<close>

definition encoder_16bpp :: "nat encoder" where
  "encoder_16bpp =
     (running_encoder 20 4 16 40)\<lparr>encode_slices :=
        [\<lparr>slice_x = 0, slice_y = 0, slice_width = 20, slice_height = 4,
          yuv = blank_picture 20 4\<rparr>]\<rparr>"

text \<open>
  A second partial on the rectangle of the first, not flipped, with other bytes; and a
  flipped partial of 1 by 2 pixels whose column, times the 4 bytes of a pixel, is 64 bytes
  short of \<open>2^32\<close>.
\<close>

definition overlapping_partial :: DisplayPartialBitmap where
  "overlapping_partial =
     \<lparr>vector = [[101, 102, 103, 104, 105, 106, 107, 108, 109, 110, 111, 112,
                 113, 114, 115, 116, 117, 118, 119, 120, 121, 122, 123, 124]],
      stride = 12, partial_x = 17, partial_y = 1, partial_width = 3, partial_height = 2,
      flip = False\<rparr>"

definition wrapping_partial :: DisplayPartialBitmap where
  "wrapping_partial =
     \<lparr>vector = [[1, 2, 3, 4, 5, 6, 7, 8]],
      stride = 4, partial_x = 1073741808, partial_y = 0, partial_width = 1, partial_height = 2,
      flip = True\<rparr>"

text \<open>A reply of the codec with a negative size, and one with three bytes of output.\<close>

definition failed_reply :: x264_reply where
  "failed_reply = \<lparr>reply_size = - 1, reply_nal = []\<rparr>"

definition good_reply :: x264_reply where
  "good_reply = \<lparr>reply_size = 3, reply_nal = [0, 0, 1]\<rparr>"

section \<open>Slices\<close>

subsection \<open>Rounding, on words and on natural numbers\<close>

lemma round_up_div:
  fixes n a :: nat
  assumes "n mod a \<noteq> 0" "0 < a"
  shows "a * ((n + (a - 1)) div a) = n + (a - n mod a)"
proof -
  define q m where "q = n div a" and "m = n mod a"
  have n: "n = a * q + m" by (simp add: q_def m_def)
  have m: "0 < m" "m < a" using assms by (simp_all add: m_def)
  have "(n + (a - 1)) div a = Suc q"
  proof (rule div_nat_eqI)
    show "a * Suc q \<le> n + (a - 1)" using n m by simp
    show "n + (a - 1) < a * Suc (Suc q)" using n m by simp
  qed
  then show ?thesis using n m by (simp add: m_def[symmetric])
qed

lemma round_up_div0:
  fixes n a :: nat
  assumes "n mod a = 0" "0 < a"
  shows "a * ((n + (a - 1)) div a) = n"
proof -
  define q where "q = n div a"
  have n: "n = a * q" using assms by (auto simp: q_def)
  have "(n + (a - 1)) div a = q"
  proof (rule div_nat_eqI)
    show "a * q \<le> n + (a - 1)" using n by simp
    show "n + (a - 1) < a * Suc q" using n assms(2) by simp
  qed
  then show ?thesis using n by simp
qed

lemma unat_mod16: "unat ((a::uint) mod 16) = unat a mod 16"
  by (simp add: unat_mod_distrib)

lemma unat_mod2: "unat ((a::uint) mod 2) = unat a mod 2"
  by (simp add: unat_mod_distrib)

lemma mod16_eq0: "((a::uint) mod 16 = 0) = (unat a mod 16 = 0)"
  by (metis unat_mod16 unat_eq_zero)

lemma mod2_eq0: "((a::uint) mod 2 = 0) = (unat a mod 2 = 0)"
  by (metis unat_mod2 unat_eq_zero)

lemma unat_round_down16: "unat ((a::uint) - a mod 16) = unat a - unat a mod 16"
proof -
  have "unat (a mod 16) \<le> unat a" by (simp add: unat_mod16)
  then have "a mod 16 \<le> a" by (simp only: word_le_nat_alt)
  then show ?thesis by (simp add: unat_sub unat_mod16)
qed

lemma unat_round_down2: "unat ((a::uint) - a mod 2) = unat a - unat a mod 2"
proof -
  have "unat (a mod 2) \<le> unat a" by (simp add: unat_mod2)
  then have "a mod 2 \<le> a" by (simp only: word_le_nat_alt)
  then show ?thesis by (simp add: unat_sub unat_mod2)
qed

lemma unat_16_minus: "unat (16 - (a::uint) mod 16) = 16 - unat a mod 16"
proof -
  have "unat (a mod 16) < 16" by (simp add: unat_mod16)
  then have "a mod 16 \<le> 16" by (simp add: word_le_nat_alt)
  then show ?thesis by (simp add: unat_sub unat_mod16)
qed

lemma unat_2_minus: "unat (2 - (a::uint) mod 2) = 2 - unat a mod 2"
proof -
  have "unat (a mod 2) < 2" by (simp add: unat_mod2)
  then have "a mod 2 \<le> 2" by (simp add: word_le_nat_alt)
  then show ?thesis by (simp add: unat_sub unat_mod2)
qed

lemma unat_round_up16:
  assumes "unat (a::uint) + 15 < 2 ^ 32" "unat a mod 16 \<noteq> 0"
  shows "unat (a + (16 - a mod 16)) = unat a + (16 - unat a mod 16)"
proof -
  have "unat a + unat (16 - a mod 16) < 2 ^ 32"
    using assms unfolding unat_16_minus by simp
  then show ?thesis
    by (simp add: unat_word_ariths unat_16_minus)
qed

lemma unat_round_up2:
  assumes "unat (a::uint) + 1 < 2 ^ 32" "unat a mod 2 \<noteq> 0"
  shows "unat (a + (2 - a mod 2)) = unat a + (2 - unat a mod 2)"
proof -
  have "unat a + unat (2 - a mod 2) < 2 ^ 32"
    using assms unfolding unat_2_minus by simp
  then show ?thesis
    by (simp add: unat_word_ariths unat_2_minus)
qed

lemma CreateEncodeSlice_eq:
  "CreateEncodeSlice alloc t l b r s =
     (case alloc (slice_right (screen_width s) r - slice_left l)
                 (slice_bottom (screen_height s) b - slice_top t) of
        None \<Rightarrow> Inl Panic
      | Some pic \<Rightarrow>
          Inr (s\<lparr>encode_slices := encode_slices s @
                [\<lparr>slice_x = slice_left l, slice_y = slice_top t,
                  slice_width = slice_right (screen_width s) r - slice_left l,
                  slice_height = slice_bottom (screen_height s) b - slice_top t,
                  yuv = pic\<rparr>]\<rparr>))"
  by (simp only: CreateEncodeSlice_def Let_def slice_left_def slice_top_def
        slice_right_def slice_bottom_def)

lemma unat_slice_left: "unat (slice_left l) = 16 * (unat l div 16)"
proof -
  have "unat l - unat l mod 16 = 16 * (unat l div 16)"
    by (rule minus_mod_eq_mult_div)
  then show ?thesis
    by (cases "unat l mod 16 = 0") (simp_all add: slice_left_def unat_round_down16 mod16_eq0)
qed

lemma unat_slice_top: "unat (slice_top t) = 2 * (unat t div 2)"
proof -
  have "unat t - unat t mod 2 = 2 * (unat t div 2)"
    by (rule minus_mod_eq_mult_div)
  then show ?thesis
    by (cases "unat t mod 2 = 0") (simp_all add: slice_top_def unat_round_down2 mod2_eq0)
qed

lemma unat_slice_right:
  assumes "unat r + 15 < 2 ^ 32"
  shows "unat (slice_right w r) = min (16 * ((unat r + 15) div 16)) (unat w)"
proof (cases "unat r mod 16 = 0")
  case True
  then have "16 * ((unat r + 15) div 16) = unat r"
    using round_up_div0 [of "unat r" 16] by simp
  with True show ?thesis
    by (simp add: slice_right_def mod16_eq0 word_less_nat_alt min_def)
next
  case False
  then have "16 * ((unat r + 15) div 16) = unat r + (16 - unat r mod 16)"
    using round_up_div [of "unat r" 16] by simp
  with False show ?thesis
    using unat_round_up16 [OF assms False]
    by (simp add: slice_right_def mod16_eq0 word_less_nat_alt min_def)
qed

lemma unat_slice_bottom:
  assumes "unat b + 1 < 2 ^ 32"
  shows "unat (slice_bottom h b) = min (2 * ((unat b + 1) div 2)) (unat h)"
proof (cases "unat b mod 2 = 0")
  case True
  then have "2 * ((unat b + 1) div 2) = unat b"
    using round_up_div0 [of "unat b" 2] by simp
  with True show ?thesis
    by (simp add: slice_bottom_def mod2_eq0 word_less_nat_alt min_def)
next
  case False
  then have "2 * ((unat b + 1) div 2) = unat b + (2 - unat b mod 2)"
    using round_up_div [of "unat b" 2] by simp
  with False show ?thesis
    using unat_round_up2 [OF assms False]
    by (simp add: slice_bottom_def mod2_eq0 word_less_nat_alt min_def)
qed

lemma le_round_up: "n \<le> a * ((n + (a - 1)) div a)" if "0 < a" for n a :: nat
proof (cases "n mod a = 0")
  case True
  then show ?thesis using round_up_div0 [of n a] that by simp
next
  case False
  have "n \<le> n + (a - n mod a)" by simp
  also have "\<dots> = a * ((n + (a - 1)) div a)"
    using round_up_div [OF False that] by (rule sym)
  finally show ?thesis .
qed

lemma round_down_le: "a * (n div a) \<le> n" for n a :: nat
  by simp

text \<open>The arithmetic of the aligned rectangle, on natural numbers.\<close>

lemma aligned_interval:
  fixes X D S :: nat
  assumes "X + D \<le> S" "S mod 2 = 0"
  defines "L \<equiv> 16 * (X div 16)" and "R \<equiv> min (16 * ((X + D + 15) div 16)) S"
  shows "L \<le> R" and "(R - L) mod 2 = 0" and "(R - L) mod 16 = 0 \<or> L + (R - L) = S"
proof -
  have 1: "L \<le> X" by (simp add: L_def)
  have 2: "X + D \<le> 16 * ((X + D + 15) div 16)"
    using le_round_up [of 16 "X + D"] by simp
  show LR: "L \<le> R" using 1 2 assms(1) by (simp add: R_def)
  show "(R - L) mod 16 = 0 \<or> L + (R - L) = S"
  proof (cases "16 * ((X + D + 15) div 16) \<le> S")
    case True
    then have "R - L = 16 * ((X + D + 15) div 16 - X div 16)"
      by (simp add: R_def L_def diff_mult_distrib2)
    then show ?thesis by simp
  next
    case False
    then have "R = S" by (simp add: R_def)
    then show ?thesis using LR by simp
  qed
  show "(R - L) mod 2 = 0"
  proof (cases "16 * ((X + D + 15) div 16) \<le> S")
    case True
    then have "R - L = 2 * (8 * ((X + D + 15) div 16 - X div 16))"
      by (simp add: R_def L_def diff_mult_distrib2)
    then show ?thesis by simp
  next
    case False
    then have "R = S" by (simp add: R_def)
    moreover have "L = 2 * (8 * (X div 16))" by (simp add: L_def)
    ultimately show ?thesis using assms(2) LR
      by (metis dvd_diff_nat dvd_triv_left mod_0_imp_dvd dvd_imp_mod_0)
  qed
qed

lemma even_interval:
  fixes Y D S :: nat
  assumes "Y + D \<le> S" "S mod 2 = 0"
  defines "T \<equiv> 2 * (Y div 2)" and "B \<equiv> min (2 * ((Y + D + 1) div 2)) S"
  shows "T \<le> B" and "(B - T) mod 2 = 0"
proof -
  have 1: "T \<le> Y" by (simp add: T_def)
  have 2: "Y + D \<le> 2 * ((Y + D + 1) div 2)"
    using le_round_up [of 2 "Y + D"] by simp
  show TB: "T \<le> B" using 1 2 assms(1) by (simp add: B_def)
  show "(B - T) mod 2 = 0"
  proof (cases "2 * ((Y + D + 1) div 2) \<le> S")
    case True
    then have "B - T = 2 * ((Y + D + 1) div 2 - Y div 2)"
      by (simp add: B_def T_def diff_mult_distrib2)
    then show ?thesis by simp
  next
    case False
    then have "B = S" by (simp add: B_def)
    then show ?thesis using assms(2) TB
      by (metis T_def dvd_diff_nat dvd_triv_left mod_0_imp_dvd dvd_imp_mod_0)
  qed
qed

lemma created_slice_aligned:
  assumes ok: "screen_ok s"
    and x: "unat x + unat w \<le> unat (screen_width s)"
    and y: "unat y + unat h \<le> unat (screen_height s)"
  shows "slice_aligned s
           \<lparr>slice_x = slice_left x, slice_y = slice_top y,
            slice_width = slice_right (screen_width s) (x + w) - slice_left x,
            slice_height = slice_bottom (screen_height s) (y + h) - slice_top y,
            yuv = pic\<rparr>"
proof -
  let ?W = "unat (screen_width s)" and ?H = "unat (screen_height s)"
  have W: "?W < 2 ^ 31" "?W mod 2 = 0" and H: "?H < 2 ^ 31" "?H mod 2 = 0"
    using ok by (simp_all add: screen_ok_def mod2_eq0)
  have xw: "unat (x + w) = unat x + unat w"
    using x W(1) by (simp add: unat_add_lem [THEN iffD1])
  have yh: "unat (y + h) = unat y + unat h"
    using y H(1) by (simp add: unat_add_lem [THEN iffD1])
  define L R T B where "L = 16 * (unat x div 16)"
    and "R = min (16 * ((unat x + unat w + 15) div 16)) ?W"
    and "T = 2 * (unat y div 2)"
    and "B = min (2 * ((unat y + unat h + 1) div 2)) ?H"
  have sl: "unat (slice_left x) = L" and st: "unat (slice_top y) = T"
    by (simp_all add: L_def T_def unat_slice_left unat_slice_top)
  have sr: "unat (slice_right (screen_width s) (x + w)) = R"
    using x W(1) by (simp add: R_def unat_slice_right xw)
  have sb: "unat (slice_bottom (screen_height s) (y + h)) = B"
    using y H(1) by (simp add: B_def unat_slice_bottom yh)
  have ai: "L \<le> R" "(R - L) mod 2 = 0" "(R - L) mod 16 = 0 \<or> L + (R - L) = ?W"
    unfolding L_def R_def by (rule aligned_interval [OF x W(2)])+
  have ei: "T \<le> B" "(B - T) mod 2 = 0"
    unfolding T_def B_def by (rule even_interval [OF y H(2)])+
  have le: "R \<le> ?W" "B \<le> ?H" by (simp_all add: R_def B_def)
  have al: "L mod 16 = 0" "T mod 2 = 0" by (simp_all add: L_def T_def)
  have wd: "unat (slice_right (screen_width s) (x + w) - slice_left x) = R - L"
    using ai(1) by (simp add: unat_sub word_le_nat_alt sr sl)
  have ht: "unat (slice_bottom (screen_height s) (y + h) - slice_top y) = B - T"
    using ei(1) by (simp add: unat_sub word_le_nat_alt sb st)
  have "L + (R - L) \<le> ?W" "T + (B - T) \<le> ?H"
    using ai(1) ei(1) le by simp_all
  then show ?thesis
    unfolding slice_aligned_def
    using ai(2,3) ei(2) al by (simp add: wd ht sl st)
qed

lemma Start_full_screen_aux:
  assumes "screen_ok s"
  shows "slice_left 0 = 0" "slice_top 0 = 0"
    "slice_right (screen_width s) (screen_width s) = screen_width s"
    "slice_bottom (screen_height s) (screen_height s) = screen_height s"
proof -
  let ?W = "unat (screen_width s)"
  have W: "?W < 2 ^ 31" and H: "screen_height s mod 2 = 0"
    using assms by (simp_all add: screen_ok_def)
  show "slice_left 0 = 0" "slice_top 0 = 0"
    by (simp_all add: slice_left_def slice_top_def)
  show "slice_bottom (screen_height s) (screen_height s) = screen_height s"
    using H by (simp add: slice_bottom_def)
  have "?W \<le> 16 * ((?W + 15) div 16)"
    using le_round_up [of 16 ?W] by simp
  then have "unat (slice_right (screen_width s) (screen_width s)) = ?W"
    using W by (simp add: unat_slice_right)
  then show "slice_right (screen_width s) (screen_width s) = screen_width s"
    by (simp add: word_unat_eq_iff)
qed

text \<open>
  C7. On a screen with even width and height (both \<open>int\<close> values, as the codec takes
  them), when the allocation of the tile succeeds, \<open>Start\<close> returns, and the encoder it
  leaves differs from the one it found in this only: the started flag is set, the
  force-keyframe flag is set, the callback is installed, and exactly one slice has been
  appended to the queue, at \<open>x = 0\<close>, \<open>y = 0\<close>, with the width and the height of the screen.
\<close>

theorem Start_full_screen:
  assumes "screen_ok s" and "alloc (screen_width s) (screen_height s) = Some pic"
  shows "Start alloc callback s =
     Inr (s\<lparr>started := True, force_keyframe := True, output_callback := Some callback,
            encode_slices := encode_slices s @
              [\<lparr>slice_x = 0, slice_y = 0, slice_width = screen_width s,
                slice_height = screen_height s, yuv = pic\<rparr>]\<rparr>)"
proof -
  let ?s = "s\<lparr>started := True, force_keyframe := True, output_callback := Some callback\<rparr>"
  have "screen_ok ?s" using assms(1) by (simp add: screen_ok_def)
  from Start_full_screen_aux [OF this] show ?thesis
    using assms(2) by (simp add: Start_def CreateEncodeSlice_eq)
qed

theorem Start_full_screen_witness:
  "screen_ok (example_encoder 640 480 32 2560) \<and>
   example_alloc 640 480 = Some (blank_picture 640 480) \<and>
   on_return started (Start example_alloc (7::nat) (example_encoder 640 480 32 2560)) = Some True \<and>
   on_return force_keyframe (Start example_alloc 7 (example_encoder 640 480 32 2560)) = Some True \<and>
   on_return output_callback (Start example_alloc 7 (example_encoder 640 480 32 2560)) = Some (Some 7) \<and>
   on_return queued_rects (Start example_alloc 7 (example_encoder 640 480 32 2560))
     = Some [(0, 0, 640, 480)]"
proof -
  have ok: "screen_ok (example_encoder 640 480 32 2560)"
    by (simp add: screen_ok_def example_encoder_def)
  have al: "example_alloc (screen_width (example_encoder 640 480 32 2560))
              (screen_height (example_encoder 640 480 32 2560)) = Some (blank_picture 640 480)"
    by (simp add: example_alloc_def example_encoder_def)
  show ?thesis
    using ok al Start_full_screen [of "example_encoder 640 480 32 2560" example_alloc "blank_picture 640 480" 7, OF ok al]
    by (simp add: on_return_def queued_rects_def slice_rect_def example_encoder_def)
qed

text \<open>
  C9. \<open>Render\<close> with an empty list of partials returns the encoder as it found it: the
  queue, the screen buffer and every other field are unchanged, whatever the started flag
  and the queue are. The condition variable is notified exactly when the queue it found
  was not empty, so the call itself gives the encode thread nothing to wake up for.
\<close>

theorem Render_nothing: "Render alloc [] s = Inr (encode_slices s \<noteq> [], s)"
  by (simp add: Render_def)

lemma CreateEncodeSlice_Inr:
  assumes "CreateEncodeSlice alloc t l b r s = Inr s'"
  obtains pic where
    "s' = s\<lparr>encode_slices := encode_slices s @
            [\<lparr>slice_x = slice_left l, slice_y = slice_top t,
              slice_width = slice_right (screen_width s) r - slice_left l,
              slice_height = slice_bottom (screen_height s) b - slice_top t,
              yuv = pic\<rparr>]\<rparr>"
  using assms by (auto simp: CreateEncodeSlice_eq split: option.splits)

text \<open>
  C5, as amended. For a partial at \<open>(x, y)\<close> of size \<open>(w, h)\<close> (with \<open>x + w + 15\<close> and
  \<open>y + h + 1\<close> below \<open>2^32\<close>, so that no sum wraps), the slice that
  \<open>CreateEncodeSlice\<close> appends has its left edge at \<open>x\<close> rounded down to a multiple of 16,
  its right edge (\<open>x\<close> plus width) at \<open>x + w\<close> rounded up to a multiple of 16, then clamped
  to the screen's width, its top at \<open>y\<close> rounded down to a multiple of 2 and its bottom
  at \<open>y + h\<close> rounded up to a multiple of 2, then clamped to the screen's height. In
  particular, on a screen of at least 16 by 8, the partial \<open>x = 5\<close>, \<open>y = 3\<close>, \<open>w = 10\<close>,
  \<open>h = 5\<close> gives the slice \<open>x = 0\<close>, \<open>y = 2\<close>, width 16, height 6.
\<close>

theorem CreateEncodeSlice_edges:
  assumes "unat x + unat w + 15 < 2 ^ 32" and "unat y + unat h + 1 < 2 ^ 32"
    and "CreateEncodeSlice alloc y x (y + h) (x + w) s = Inr s'"
  shows "\<exists>sl. encode_slices s' = encode_slices s @ [sl] \<and>
           unat (slice_x sl) = 16 * (unat x div 16) \<and>
           unat (slice_x sl + slice_width sl)
             = min (16 * ((unat x + unat w + 15) div 16)) (unat (screen_width s)) \<and>
           unat (slice_y sl) = 2 * (unat y div 2) \<and>
           unat (slice_y sl + slice_height sl)
             = min (2 * ((unat y + unat h + 1) div 2)) (unat (screen_height s)) \<and>
           (x = 5 \<and> y = 3 \<and> w = 10 \<and> h = 5 \<and> 16 \<le> screen_width s \<and> 8 \<le> screen_height s
              \<longrightarrow> slice_rect sl = (0, 2, 16, 6))"
proof -
  from assms(3) obtain pic where s': 
    "s' = s\<lparr>encode_slices := encode_slices s @
            [\<lparr>slice_x = slice_left x, slice_y = slice_top y,
              slice_width = slice_right (screen_width s) (x + w) - slice_left x,
              slice_height = slice_bottom (screen_height s) (y + h) - slice_top y,
              yuv = pic\<rparr>]\<rparr>"
    by (rule CreateEncodeSlice_Inr)
  let ?sl = "\<lparr>slice_x = slice_left x, slice_y = slice_top y,
              slice_width = slice_right (screen_width s) (x + w) - slice_left x,
              slice_height = slice_bottom (screen_height s) (y + h) - slice_top y,
              yuv = pic\<rparr>"
  have xw: "unat (x + w) = unat x + unat w"
    using assms(1) by (simp add: unat_add_lem [THEN iffD1])
  have yh: "unat (y + h) = unat y + unat h"
    using assms(2) by (simp add: unat_add_lem [THEN iffD1])
  have 1: "unat (slice_x ?sl) = 16 * (unat x div 16)"
    by (simp add: unat_slice_left)
  have 2: "unat (slice_x ?sl + slice_width ?sl)
             = min (16 * ((unat x + unat w + 15) div 16)) (unat (screen_width s))"
    using assms(1) by (simp add: unat_slice_right xw)
  have 3: "unat (slice_y ?sl) = 2 * (unat y div 2)"
    by (simp add: unat_slice_top)
  have 4: "unat (slice_y ?sl + slice_height ?sl)
             = min (2 * ((unat y + unat h + 1) div 2)) (unat (screen_height s))"
    using assms(2) by (simp add: unat_slice_bottom yh)
  have 5: "slice_rect ?sl = (0, 2, 16, 6)"
    if "x = 5" "y = 3" "w = 10" "h = 5" "16 \<le> screen_width s" "8 \<le> screen_height s"
  proof -
    have a: "slice_left x = 0" "slice_top y = 2"
      using that by (simp_all add: slice_left_def slice_top_def)
    have "\<not> screen_width s < 16" "\<not> screen_height s < 8"
      using that by simp_all
    then have b: "slice_right (screen_width s) (x + w) = 16"
      and c: "slice_bottom (screen_height s) (y + h) = 8"
      using that by (simp_all add: slice_right_def slice_bottom_def)
    show ?thesis by (simp add: slice_rect_def a b c)
  qed
  have "encode_slices s' = encode_slices s @ [?sl]" by (simp add: s')
  with 1 2 3 4 5 show ?thesis by blast
qed

lemma RenderPartial_Inr:
  assumes "RenderPartial p s = Inr s'"
  obtains bitmap where "s' = s\<lparr>screen_bitmap := bitmap\<rparr>"
  using assms unfolding RenderPartial_def Let_def
  by (auto split: sum.splits)

lemma Render_loop_slices:
  assumes "screen_ok s" and "list_all (in_bounds s) partials"
    and "Render_loop alloc partials s = Inr s'"
  shows "\<exists>new. encode_slices s' = encode_slices s @ new \<and> list_all (slice_aligned s) new"
  using assms
proof (induction partials arbitrary: s)
  case Nil
  then show ?case by simp
next
  case (Cons p ps)
  from Cons.prems(3) obtain s1 where s1: "RenderPartial p s = Inr s1"
    by (auto split: sum.splits)
  then obtain bitmap where bm: "s1 = s\<lparr>screen_bitmap := bitmap\<rparr>"
    by (rule RenderPartial_Inr)
  have ok1: "screen_ok s1" using Cons.prems(1) by (simp add: bm screen_ok_def)
  have ib_eq: "in_bounds s1 = in_bounds s"
    by (simp add: bm in_bounds_def fun_eq_iff)
  have ib1: "list_all (in_bounds s1) ps"
    using Cons.prems(2) by (simp add: ib_eq)
  have al1: "slice_aligned s1 = slice_aligned s"
    by (simp add: bm slice_aligned_def fun_eq_iff)
  show ?case
  proof (cases "started s1")
    case False
    with Cons.prems(3) s1 have "Render_loop alloc ps s1 = Inr s'" by simp
    from Cons.IH [OF ok1 ib1 this, unfolded al1] show ?thesis by (simp add: bm)
  next
    case True
    with Cons.prems(3) s1 obtain s2 where
      s2: "CreateEncodeSlice alloc (partial_y p) (partial_x p)
             (partial_y p + partial_height p) (partial_x p + partial_width p) s1 = Inr s2"
      and rest: "Render_loop alloc ps s2 = Inr s'"
      by (auto split: sum.splits)
    from s2 obtain pic where s2_eq:
      "s2 = s1\<lparr>encode_slices := encode_slices s1 @
            [\<lparr>slice_x = slice_left (partial_x p), slice_y = slice_top (partial_y p),
              slice_width = slice_right (screen_width s1) (partial_x p + partial_width p)
                              - slice_left (partial_x p),
              slice_height = slice_bottom (screen_height s1) (partial_y p + partial_height p)
                              - slice_top (partial_y p),
              yuv = pic\<rparr>]\<rparr>"
      by (rule CreateEncodeSlice_Inr)
    let ?sl = "\<lparr>slice_x = slice_left (partial_x p), slice_y = slice_top (partial_y p),
              slice_width = slice_right (screen_width s1) (partial_x p + partial_width p)
                              - slice_left (partial_x p),
              slice_height = slice_bottom (screen_height s1) (partial_y p + partial_height p)
                              - slice_top (partial_y p),
              yuv = pic\<rparr>"
    have ibp: "in_bounds s1 p" using Cons.prems(2) by (simp add: ib_eq)
    have alp: "slice_aligned s1 ?sl"
      using ibp unfolding in_bounds_def by (intro created_slice_aligned [OF ok1]) simp_all
    have ok2: "screen_ok s2" using ok1 by (simp add: s2_eq screen_ok_def)
    have "in_bounds s2 = in_bounds s1"
      by (simp add: s2_eq in_bounds_def fun_eq_iff)
    then have ib2: "list_all (in_bounds s2) ps"
      using ib1 by simp
    have al2: "slice_aligned s2 = slice_aligned s"
      by (simp add: s2_eq bm slice_aligned_def fun_eq_iff)
    from Cons.IH [OF ok2 ib2 rest, unfolded al2] obtain new where
      new: "encode_slices s' = encode_slices s2 @ new" "list_all (slice_aligned s) new"
      by blast
    have "slice_aligned s ?sl" using alp unfolding al1 .
    with new have "encode_slices s' = encode_slices s @ (?sl # new)"
      "list_all (slice_aligned s) (?sl # new)"
      by (simp_all add: s2_eq bm)
    then show ?thesis by blast
  qed
qed

text \<open>
  C2, as amended. On a screen with even width and height, every slice that \<open>Start\<close>
  appends to the queue, and every slice that \<open>Render\<close> appends for partials that lie on
  the screen, has \<open>x\<close> a multiple of 16, \<open>y\<close> and the height even, the width even,
  and a multiple of 16 unless the slice ends at the right edge of the screen, and lies on
  the screen: \<open>x\<close> plus width is at most the screen's width, \<open>y\<close> plus height at most
  its height. Both calls leave the slices already queued in place.
\<close>

theorem queued_slices_aligned:
  assumes "screen_ok s"
  shows "(Start alloc callback s = Inr s' \<longrightarrow>
            (\<exists>sl. encode_slices s' = encode_slices s @ [sl] \<and> slice_aligned s sl)) \<and>
         (list_all (in_bounds s) partials \<and> Render alloc partials s = Inr (woken, s'') \<longrightarrow>
            (\<exists>new. encode_slices s'' = encode_slices s @ new \<and> list_all (slice_aligned s) new))"
proof (intro conjI impI)
  assume st: "Start alloc callback s = Inr s'"
  let ?s = "s\<lparr>started := True, force_keyframe := True, output_callback := Some callback\<rparr>"
  have ok: "screen_ok ?s" using assms by (simp add: screen_ok_def)
  from st have "CreateEncodeSlice alloc 0 0 (0 + screen_height ?s) (0 + screen_width ?s) ?s = Inr s'"
    by (simp add: Start_def)
  then obtain pic where s': 
    "s' = ?s\<lparr>encode_slices := encode_slices ?s @
            [\<lparr>slice_x = slice_left 0, slice_y = slice_top 0,
              slice_width = slice_right (screen_width ?s) (0 + screen_width ?s) - slice_left 0,
              slice_height = slice_bottom (screen_height ?s) (0 + screen_height ?s) - slice_top 0,
              yuv = pic\<rparr>]\<rparr>"
    by (rule CreateEncodeSlice_Inr)
  have "slice_aligned ?s \<lparr>slice_x = slice_left 0, slice_y = slice_top 0,
              slice_width = slice_right (screen_width ?s) (0 + screen_width ?s) - slice_left 0,
              slice_height = slice_bottom (screen_height ?s) (0 + screen_height ?s) - slice_top 0,
              yuv = pic\<rparr>"
    by (intro created_slice_aligned [OF ok]) simp_all
  then show "\<exists>sl. encode_slices s' = encode_slices s @ [sl] \<and> slice_aligned s sl"
    by (simp add: s' slice_aligned_def)
next
  assume "list_all (in_bounds s) partials \<and> Render alloc partials s = Inr (woken, s'')"
  then have ib: "list_all (in_bounds s) partials"
    and "Render_loop alloc partials s = Inr s''"
    by (auto simp: Render_def split: sum.splits)
  with assms show "\<exists>new. encode_slices s'' = encode_slices s @ new \<and> list_all (slice_aligned s) new"
    by (intro Render_loop_slices)
qed

text \<open>
  C2 as stated makes the width of every slice a multiple of 16. On a screen of 1366 by
  768, both even, \<open>Start\<close> queues the slice \<open>(0, 0, 1366, 768)\<close>: the right edge 1366 is
  rounded up to 1376 and clamped back to the screen's width, and 1366 is 6 modulo 16.
\<close>

theorem slice_width_not_16_counterexample:
  "on_return queued_rects (Start example_alloc (7::nat) (example_encoder 1366 768 32 5464))
     = Some [(0, 0, 1366, 768)] \<and> (1366 :: uint) mod 16 = 6"
  by (simp add: on_return_def queued_rects_def slice_rect_def Start_def CreateEncodeSlice_def
        example_alloc_def example_encoder_def)

text \<open>
  C5 as stated gives the slice of that partial the height 4. \<open>Render\<close> calls
  \<open>CreateEncodeSlice\<close> with \<open>top = 3\<close>, \<open>left = 5\<close>, \<open>bottom = 3 + 5\<close> and
  \<open>right = 5 + 10\<close>; on a screen of 640 by 480 the slice queued is \<open>(0, 2, 16, 6)\<close>:
  from the top 2 to the bottom 8 the height is 6.
\<close>

theorem unaligned_partial_height_counterexample:
  "on_return queued_rects
     (CreateEncodeSlice example_alloc 3 5 (3 + 5) (5 + 10) (example_encoder 640 480 32 2560))
     = Some [(0, 2, 16, 6)]"
  by (simp add: on_return_def queued_rects_def slice_rect_def CreateEncodeSlice_def
        example_alloc_def example_encoder_def)

section \<open>The encode thread\<close>

lemma ConvertSlices_fields:
  "started (ConvertSlices A R s) = started s"
  "destroyed (ConvertSlices A R s) = destroyed s"
  "force_keyframe (ConvertSlices A R s) = force_keyframe s"
  "output_callback (ConvertSlices A R s) = output_callback s"
  "input_yuv (ConvertSlices A R s) = input_yuv s"
  "submitted (ConvertSlices A R s) = submitted s"
  "delivered (ConvertSlices A R s) = delivered s"
  by (simp_all add: ConvertSlices_def)

lemma Encode_fields:
  "started (Encode reply s) = started s"
  "destroyed (Encode reply s) = destroyed s"
  "force_keyframe (Encode reply s) = False"
  "output_callback (Encode reply s) = output_callback s"
  "pts (Encode reply s) = pts s + 1"
  "i_type (input_yuv (Encode reply s)) = (if force_keyframe s then X264_TYPE_KEYFRAME else X264_TYPE_AUTO)"
  "submitted (Encode reply s) =
     submitted s @ [(pts s + 1, if force_keyframe s then X264_TYPE_KEYFRAME else X264_TYPE_AUTO)]"
  "delivered (Encode reply s) = delivered s"
  "output_nal (Encode reply s) = reply_nal reply"
  "output_nal_size (Encode reply s) = reply_size reply"
  by (simp_all add: Encode_def pts_def Let_def)

text \<open>What a pass that runs (the encoder is started and not destroyed) does to the fields.\<close>

lemma EncodeProcess_pass_Inr:
  assumes "started s" "\<not> destroyed s" "EncodeProcess_pass A R reply s = Inr s'"
  shows "started s'" "\<not> destroyed s'" "\<not> force_keyframe s'"
    "output_callback s' = output_callback s"
    "pts s' = pts s + 1"
    "i_type (input_yuv s') = (if force_keyframe s then X264_TYPE_KEYFRAME else X264_TYPE_AUTO)"
    "submitted s' =
       submitted s @ [(pts s + 1, if force_keyframe s then X264_TYPE_KEYFRAME else X264_TYPE_AUTO)]"
    "delivered s' = delivered s @
       (case output_callback s of None \<Rightarrow> []
        | Some callback \<Rightarrow> [(callback, reply_nal reply, sint (reply_size reply))])"
proof -
  define D where "D =
    (if encode_slices s = [] then Inr s
     else (case DrawSlices (encode_slices (ConvertSlices A R s))
                  (img (input_yuv (ConvertSlices A R s))) of
             Inl e \<Rightarrow> Inl e
           | Inr picture \<Rightarrow>
               Inr ((ConvertSlices A R s)\<lparr>encode_slices := [],
                      input_yuv := (input_yuv (ConvertSlices A R s))\<lparr>img := picture\<rparr>\<rparr>)))"
  define deliver :: "'a encoder \<Rightarrow> 'a encoder" where "deliver = (\<lambda>s4.
    case output_callback s4 of
      None \<Rightarrow> s4
    | Some callback \<Rightarrow>
        s4\<lparr>delivered := delivered s4 @ [(callback, output_nal s4, sint (output_nal_size s4))]\<rparr>)"
  have pass: "EncodeProcess_pass A R reply s =
      (case D of Inl e \<Rightarrow> Inl e | Inr s3 \<Rightarrow> Inr (deliver (Encode reply s3)))"
    using assms(1,2)
    by (simp add: EncodeProcess_pass_def D_def deliver_def Let_def split: sum.splits option.splits)
  with assms(3) obtain s3 where D: "D = Inr s3" and s': "s' = deliver (Encode reply s3)"
    by (cases D) simp_all
  have f: "started s3 = started s" "destroyed s3 = destroyed s"
    "force_keyframe s3 = force_keyframe s" "output_callback s3 = output_callback s"
    "pts s3 = pts s" "submitted s3 = submitted s" "delivered s3 = delivered s"
    using D unfolding D_def
    by (auto simp: ConvertSlices_fields pts_def split: if_splits sum.splits)
  have dl: "started (deliver x) = started x" "destroyed (deliver x) = destroyed x"
    "force_keyframe (deliver x) = force_keyframe x"
    "output_callback (deliver x) = output_callback x"
    "pts (deliver x) = pts x" "input_yuv (deliver x) = input_yuv x"
    "submitted (deliver x) = submitted x"
    "delivered (deliver x) = delivered x @
       (case output_callback x of None \<Rightarrow> []
        | Some callback \<Rightarrow> [(callback, output_nal x, sint (output_nal_size x))])" for x
    by (simp_all add: deliver_def pts_def split: option.splits)
  show "started s'" "\<not> destroyed s'" "\<not> force_keyframe s'"
    "output_callback s' = output_callback s"
    "pts s' = pts s + 1"
    "i_type (input_yuv s') = (if force_keyframe s then X264_TYPE_KEYFRAME else X264_TYPE_AUTO)"
    "submitted s' =
       submitted s @ [(pts s + 1, if force_keyframe s then X264_TYPE_KEYFRAME else X264_TYPE_AUTO)]"
    "delivered s' = delivered s @
       (case output_callback s of None \<Rightarrow> []
        | Some callback \<Rightarrow> [(callback, reply_nal reply, sint (reply_size reply))])"
    using assms(1,2)
    by (simp_all add: s' dl Encode_fields f split: option.splits)
qed

lemma EncodeProcess_auto:
  assumes "started s" "\<not> destroyed s" "\<not> force_keyframe s"
    and "EncodeProcess A R replies s = Inr s'"
  shows "submitted_types s' = submitted_types s @ replicate (length replies) X264_TYPE_AUTO
         \<and> \<not> force_keyframe s'"
  using assms
proof (induction replies arbitrary: s)
  case Nil
  then show ?case by simp
next
  case (Cons r rs)
  from Cons.prems(4) obtain s1 where
    s1: "EncodeProcess_pass A R r s = Inr s1" and rest: "EncodeProcess A R rs s1 = Inr s'"
    by (auto split: sum.splits)
  note p = EncodeProcess_pass_Inr [OF Cons.prems(1,2) s1]
  from Cons.IH [OF p(1,2,3) rest] show ?case
    using Cons.prems(3) by (simp add: submitted_types_def p(7) replicate_append_same)
qed

lemma EncodeProcess_pts:
  assumes "started s" "\<not> destroyed s" "EncodeProcess A R replies s = Inr s'"
  shows "pts s' = pts s + of_nat (length replies)"
  using assms
proof (induction replies arbitrary: s)
  case Nil
  then show ?case by simp
next
  case (Cons r rs)
  from Cons.prems(3) obtain s1 where
    s1: "EncodeProcess_pass A R r s = Inr s1" and rest: "EncodeProcess A R rs s1 = Inr s'"
    by (auto split: sum.splits)
  note p = EncodeProcess_pass_Inr [OF Cons.prems(1,2) s1]
  from Cons.IH [OF p(1,2) rest] show ?case
    by (simp add: p(5))
qed

lemma ForceKeyframe_funpow_Suc:
  "(ForceKeyframe ^^ Suc k) s = s\<lparr>force_keyframe := True\<rparr>"
  by (induction k) (simp_all add: ForceKeyframe_def)

lemma ForceKeyframe_funpow:
  "0 < k \<Longrightarrow> (ForceKeyframe ^^ k) s = s\<lparr>force_keyframe := True\<rparr>"
  using ForceKeyframe_funpow_Suc [of "k - 1" s] by simp

text \<open>
  C8. Let \<open>ForceKeyframe\<close> be called \<open>k \<ge> 1\<close> times on a started encoder, and let the
  encode thread then make one pass or more, to the end. The first pass hands the codec a
  picture of type \<open>X264_TYPE_KEYFRAME\<close> and clears the flag; every later pass hands it one
  of type \<open>X264_TYPE_AUTO\<close>: of the pictures submitted, exactly the first is a keyframe,
  whatever \<open>k\<close> is and whatever the codec returns.
\<close>

theorem force_keyframe_once:
  assumes "0 < k" and "started s" and "\<not> destroyed s"
    and "EncodeProcess A R (reply # replies) ((ForceKeyframe ^^ k) s) = Inr s'"
  shows "(\<exists>s1. EncodeProcess_pass A R reply ((ForceKeyframe ^^ k) s) = Inr s1 \<and>
               i_type (input_yuv s1) = X264_TYPE_KEYFRAME \<and> \<not> force_keyframe s1) \<and>
         submitted_types s' =
           submitted_types s @ X264_TYPE_KEYFRAME # replicate (length replies) X264_TYPE_AUTO \<and>
         \<not> force_keyframe s'"
proof -
  let ?s = "s\<lparr>force_keyframe := True\<rparr>"
  have k: "(ForceKeyframe ^^ k) s = ?s" using assms(1) by (rule ForceKeyframe_funpow)
  from assms(4) obtain s1 where
    s1: "EncodeProcess_pass A R reply ?s = Inr s1" and rest: "EncodeProcess A R replies s1 = Inr s'"
    by (auto simp: k split: sum.splits)
  have st: "started ?s" "\<not> destroyed ?s" using assms(2,3) by simp_all
  note p = EncodeProcess_pass_Inr [OF st s1]
  from EncodeProcess_auto [OF p(1,2,3) rest] show ?thesis
    using s1 p(3,6,7) by (simp add: k submitted_types_def)
qed

text \<open>
  C3, as amended. After a sequence of passes of the encode thread of a started encoder,
  the timestamp of the picture is its initial value plus the number of passes, whether
  the codec produced output on them or not (the sum is that of an \<open>int64_t\<close>): it
  advances by one on every pass that calls the codec. So it is the initial value plus
  the number \<open>N\<close> of passes that produced output when every pass produced output.
\<close>

theorem pts_counts_passes:
  assumes "started s" and "\<not> destroyed s" and "EncodeProcess A R replies s = Inr s'"
  shows "pts s' = pts s + of_nat (length replies) \<and>
         (list_all produced_output replies \<longrightarrow>
            pts s' = pts s + of_nat (length (filter produced_output replies)))"
proof -
  have "pts s' = pts s + of_nat (length replies)"
    using assms by (rule EncodeProcess_pts)
  moreover have "filter produced_output replies = replies" if "list_all produced_output replies"
    using that by (simp add: list_all_iff)
  ultimately show ?thesis by simp
qed

text \<open>
  C3 as stated makes the timestamp advance only on the passes that produced output. One
  pass on which the codec returns \<open>-1\<close> takes the timestamp from 0 to 1, and no pass
  produced output.
\<close>

theorem pts_advances_without_output_counterexample:
  "on_return pts (EncodeProcess no_conversion no_conversion [failed_reply] (running_encoder 20 4 32 80))
     = Some 1 \<and>
   pts (running_encoder 20 4 32 80) = 0 \<and>
   length (filter produced_output [failed_reply]) = 0"
  by code_simp

text \<open>
  C1 asks that a pass on which the codec returns a negative size does not call the output
  callback. \<open>Encode\<close> tests the size and returns, at its end, and \<open>EncodeProcess\<close> calls
  the callback whenever one is installed: on a started encoder with callback 7 installed,
  a pass on which the codec returns \<open>-1\<close> calls the callback, with the size \<open>-1\<close>.
\<close>

theorem callback_called_with_negative_size:
  "sint (reply_size failed_reply) = - 1 \<and>
   delivered (running_encoder 20 4 32 80) = [] \<and>
   on_return delivered
     (EncodeProcess_pass no_conversion no_conversion failed_reply (running_encoder 20 4 32 80))
     = Some [(7, [], - 1)]"
  by code_simp

lemma ConvertSlices_other_bpp:
  assumes "screen_bpp s \<noteq> 32" "screen_bpp s \<noteq> 24"
  shows "ConvertSlices A R s = s"
  using assms by (simp add: ConvertSlices_def Let_def)

text \<open>
  C4 asks that \<open>ConvertSlices\<close> stops the process when the screen has neither 32 nor 24
  bits per pixel. The function has no branch for another depth: on a screen of 16 bits
  per pixel with a slice queued it returns, and the encoder, with the tile of the slice
  in it, is as it was before the call, whatever the two conversion routines do.
\<close>

theorem ConvertSlices_16bpp_returns:
  "screen_bpp encoder_16bpp = 16 \<and>
   ConvertSlices ARGBToI420 RGB24ToI420 encoder_16bpp = encoder_16bpp"
  by (simp add: ConvertSlices_def encoder_16bpp_def running_encoder_def example_encoder_def)

section \<open>The statements at concrete inputs\<close>

lemma on_return_Some:
  assumes "on_return f r = Some v"
  obtains a where "r = Inr a" "f a = v"
  using assms by (cases r) (auto simp: on_return_def)

theorem force_keyframe_once_witness:
  "(0::nat) < 3 \<and> started (running_encoder 20 4 32 80) \<and> \<not> destroyed (running_encoder 20 4 32 80) \<and>
   on_return submitted_types
     (EncodeProcess no_conversion no_conversion [good_reply, failed_reply, good_reply]
        ((ForceKeyframe ^^ 3) (running_encoder 20 4 32 80)))
     = Some [X264_TYPE_KEYFRAME, X264_TYPE_AUTO, X264_TYPE_AUTO] \<and>
   on_return force_keyframe
     (EncodeProcess no_conversion no_conversion [good_reply, failed_reply, good_reply]
        ((ForceKeyframe ^^ 3) (running_encoder 20 4 32 80)))
     = Some False"
proof -
  let ?s = "running_encoder 20 4 32 80"
  let ?run = "EncodeProcess no_conversion no_conversion [good_reply, failed_reply, good_reply]
                ((ForceKeyframe ^^ 3) ?s)"
  have st: "started ?s" "\<not> destroyed ?s" "submitted_types ?s = []"
    by (simp_all add: running_encoder_def example_encoder_def submitted_types_def)
  have "on_return started ?run = Some True" by code_simp
  then obtain s' where run: "?run = Inr s'" by (rule on_return_Some)
  have k: "(0::nat) < 3" by simp
  from force_keyframe_once [OF k st(1,2) run]
  have "submitted_types s' = [X264_TYPE_KEYFRAME, X264_TYPE_AUTO, X264_TYPE_AUTO]"
    and "\<not> force_keyframe s'"
    by (simp_all add: st(3) numeral_2_eq_2)
  then have "on_return submitted_types ?run
               = Some [X264_TYPE_KEYFRAME, X264_TYPE_AUTO, X264_TYPE_AUTO]"
    and "on_return force_keyframe ?run = Some False"
    unfolding run by (simp_all add: on_return_def)
  with k st(1,2) show ?thesis by (intro conjI)
qed

theorem pts_counts_passes_witness:
  "started (running_encoder 20 4 32 80) \<and> \<not> destroyed (running_encoder 20 4 32 80) \<and>
   pts (running_encoder 20 4 32 80) = 0 \<and>
   on_return pts
     (EncodeProcess no_conversion no_conversion [good_reply, failed_reply]
        (running_encoder 20 4 32 80)) = Some 2"
proof -
  let ?s = "running_encoder 20 4 32 80"
  let ?run = "EncodeProcess no_conversion no_conversion [good_reply, failed_reply] ?s"
  have st: "started ?s" "\<not> destroyed ?s" "pts ?s = 0"
    by (simp_all add: running_encoder_def example_encoder_def pts_def blank_picture_def)
  have "on_return started ?run = Some True" by code_simp
  then obtain s' where run: "?run = Inr s'" by (rule on_return_Some)
  from pts_counts_passes [OF st(1,2) run] have "pts s' = 2"
    by (simp add: st(3))
  then have "on_return pts ?run = Some 2"
    unfolding run by (simp add: on_return_def)
  with st show ?thesis by (intro conjI)
qed

theorem CreateEncodeSlice_edges_witness:
  "unat (5 :: uint) + unat (10 :: uint) + 15 < 2 ^ 32 \<and>
   unat (3 :: uint) + unat (5 :: uint) + 1 < 2 ^ 32 \<and>
   (16 :: uint) \<le> screen_width (example_encoder 640 480 32 2560) \<and>
   (8 :: uint) \<le> screen_height (example_encoder 640 480 32 2560) \<and>
   on_return queued_rects
     (CreateEncodeSlice example_alloc 3 5 (3 + 5) (5 + 10) (example_encoder 640 480 32 2560))
     = Some [(0, 2, 16, 6)]"
proof -
  let ?s = "example_encoder 640 480 32 2560"
  let ?run = "CreateEncodeSlice example_alloc 3 5 (3 + 5) (5 + 10) ?s"
  have h: "unat (5 :: uint) + unat (10 :: uint) + 15 < 2 ^ 32"
    "unat (3 :: uint) + unat (5 :: uint) + 1 < 2 ^ 32"
    by simp_all
  have sc: "(16 :: uint) \<le> screen_width ?s" "(8 :: uint) \<le> screen_height ?s"
    "encode_slices ?s = []"
    by (simp_all add: example_encoder_def)
  have "?run \<noteq> Inl Panic"
    by (simp add: CreateEncodeSlice_eq example_alloc_def)
  then obtain s' where run: "?run = Inr s'"
    by (auto simp: CreateEncodeSlice_eq split: option.splits)
  from CreateEncodeSlice_edges [OF h run] obtain sl where
    "encode_slices s' = encode_slices ?s @ [sl]" "slice_rect sl = (0, 2, 16, 6)"
    using sc by blast
  then have "queued_rects s' = [(0, 2, 16, 6)]"
    by (simp add: queued_rects_def sc(3))
  then have "on_return queued_rects ?run = Some [(0, 2, 16, 6)]"
    unfolding run by (simp add: on_return_def)
  with h sc(1,2) show ?thesis by (intro conjI)
qed

theorem queued_slices_aligned_witness:
  "screen_ok (running_encoder 20 4 32 80) \<and>
   list_all (in_bounds (running_encoder 20 4 32 80)) [example_partial] \<and>
   on_return (list_all (slice_aligned (running_encoder 20 4 32 80)) \<circ> encode_slices)
     (Start example_alloc 7 (running_encoder 20 4 32 80)) = Some True \<and>
   on_return (list_all (slice_aligned (running_encoder 20 4 32 80)) \<circ> encode_slices \<circ> snd)
     (Render example_alloc [example_partial] (running_encoder 20 4 32 80)) = Some True"
proof -
  let ?s = "running_encoder 20 4 32 80"
  have ok: "screen_ok ?s"
    by (simp add: screen_ok_def running_encoder_def example_encoder_def)
  have ib: "list_all (in_bounds ?s) [example_partial]"
    by (simp add: in_bounds_def running_encoder_def example_encoder_def example_partial_def)
  have q: "encode_slices ?s = []"
    by (simp add: running_encoder_def example_encoder_def)
  have "on_return started (Start example_alloc 7 ?s) = Some True" by code_simp
  then obtain s' where st: "Start example_alloc 7 ?s = Inr s'" by (rule on_return_Some)
  have "on_return (started \<circ> snd) (Render example_alloc [example_partial] ?s) = Some True"
    by code_simp
  then obtain r where "Render example_alloc [example_partial] ?s = Inr r"
    by (rule on_return_Some)
  then obtain woken s'' where rn: "Render example_alloc [example_partial] ?s = Inr (woken, s'')"
    by (cases r) simp
  note t = queued_slices_aligned [OF ok, of example_alloc 7 s' "[example_partial]" woken s'']
  from t st have "list_all (slice_aligned ?s) (encode_slices s')"
    by (auto simp: q)
  moreover from t ib rn have "list_all (slice_aligned ?s) (encode_slices s'')"
    by (auto simp: q)
  ultimately have
    "on_return (list_all (slice_aligned ?s) \<circ> encode_slices) (Start example_alloc 7 ?s)
       = Some True"
    "on_return (list_all (slice_aligned ?s) \<circ> encode_slices \<circ> snd)
       (Render example_alloc [example_partial] ?s) = Some True"
    unfolding st rn by (simp_all add: on_return_def)
  with ok ib show ?thesis by (intro conjI)
qed

end
